theory Spec2Isabelle
  imports Complex_Main "HOL-Library.Word"
begin

section \<open>Data model of the unified recognizer (hira\_kata\_kanji\_kuzu.py)\<close>

text \<open>
  The PIL image of mode "L" is a matrix of unsigned bytes, kept here as a list of rows.
  A segment is the 4-tuple \<open>(x1, y1, x2, y2)\<close> the source stores, a stroke the list of
  \<open>(segment, width)\<close> pairs appended by \<open>_paint\<close>.
\<close>

type_synonym pixel = "8 word"
type_synonym image = "pixel list list"
type_synonym seg = "int \<times> int \<times> int \<times> int"
type_synonym stroke = "(seg \<times> int) list"
type_synonym tensor = "rat list list list list"

datatype script = Hiragana | Katakana | Kanji | Kuzushiji

datatype language = En | Jp

text \<open>A label table entry is a single string or a (native, transliterated) pair.\<close>

datatype label = Single string | Pair string string

text \<open>
  The texts shown in the widgets. The literal strings of the source are user-interface
  constants; each is named by the place it is shown for and the language it is in.
\<close>

datatype display_text = ModeText script language | DefaultText language | LabelText string

datatype event = Event (ev_x: int) (ev_y: int)

datatype error = IndexError

text \<open>
  A Tk callback that raises leaves behind whatever it had already mutated, and the main
  loop goes on with that state: an outcome carries the state in both cases.
\<close>

datatype 'a outcome = Returns 'a | Raises error 'a

fun state_of :: "'a outcome \<Rightarrow> 'a" where
  "state_of (Returns s) = s"
| "state_of (Raises e s) = s"

text \<open>
  The collaborators that are not code of the repository: the rasteriser
  \<open>ImageDraw.line(..., fill=0, width=w)\<close>, \<open>Image.resize((n, n), LANCZOS)\<close>, the four
  Keras models (\<open>predict(x)[0]\<close>, \<open>None\<close> when the call raises), \<open>np.argsort\<close> with its
  default sorting kind, which leaves the order of equal values open, and the four
  imported label tables.
\<close>

record env =
  draw_line :: "seg \<Rightarrow> int \<Rightarrow> image \<Rightarrow> image"
  resize :: "nat \<Rightarrow> image \<Rightarrow> image"
  predict :: "script \<Rightarrow> tensor \<Rightarrow> rat list option"
  argsort :: "rat list \<Rightarrow> nat list"
  labels :: "script \<Rightarrow> label list"

text \<open>
  The attributes of \<open>JapaneseCharacterRecognizer\<close> that the handlers read and write. The
  Tk canvas items mirror the image on screen and the message boxes are modal output; both
  are display only and are left out. A row of the result table keeps the probability
  itself rather than its formatted text.
\<close>

record app_state =
  current_mode :: script
  current_labels :: "label list"
  current_language :: language
  line_width :: int
  last_x :: "int option"
  last_y :: "int option"
  image :: image
  strokes :: "stroke list"
  redo_stack :: "stroke list"
  auto_var :: bool
  result_label :: display_text
  conf_bar :: int
  top_table :: "(string \<times> rat) list"
  mode_label :: display_text

definition canvas_size :: nat where
  "canvas_size = 320"

definition model_inputs :: "script \<Rightarrow> nat" where
  "model_inputs m = (case m of Hiragana \<Rightarrow> 48 | Katakana \<Rightarrow> 48 | Kanji \<Rightarrow> 48 | Kuzushiji \<Rightarrow> 28)"

text \<open>\<open>Image.new("L", (w, h), 255)\<close>\<close>

definition new_image :: "nat \<Rightarrow> nat \<Rightarrow> image" where
  "new_image w h = replicate h (replicate w 255)"

text \<open>The state at the end of \<open>__init__\<close>.\<close>

definition init_state :: "env \<Rightarrow> app_state" where
  "init_state E =
     \<lparr> current_mode = Hiragana, current_labels = labels E Hiragana, current_language = En,
       line_width = 7, last_x = None, last_y = None,
       image = new_image canvas_size canvas_size, strokes = [], redo_stack = [],
       auto_var = True, result_label = DefaultText En, conf_bar = 0, top_table = [],
       mode_label = ModeText Hiragana En \<rparr>"

section \<open>Normalizer: \<open>_preprocess_for_model\<close>\<close>

definition width :: "image \<Rightarrow> nat" where
  "width img = (case img of [] \<Rightarrow> 0 | r # _ \<Rightarrow> length r)"

definition height :: "image \<Rightarrow> nat" where
  "height img = length img"

text \<open>\<open>mask = arr < 255\<close> and \<open>mask.any()\<close>\<close>

definition ink :: "pixel \<Rightarrow> bool" where
  "ink p \<longleftrightarrow> p < 255"

definition any_ink :: "image \<Rightarrow> bool" where
  "any_ink img = list_ex (list_ex ink) img"

text \<open>\<open>ys, xs = np.where(mask)\<close>: the row and the column index of every ink pixel.\<close>

definition where_ys :: "image \<Rightarrow> nat list" where
  "where_ys img = concat (map (\<lambda>i. map (\<lambda>j. i) (filter (\<lambda>j. ink (img ! i ! j)) [0..<length (img ! i)])) [0..<length img])"

definition where_xs :: "image \<Rightarrow> nat list" where
  "where_xs img = concat (map (\<lambda>i. filter (\<lambda>j. ink (img ! i ! j)) [0..<length (img ! i)]) [0..<length img])"

text \<open>\<open>img.crop((l, u, r, b))\<close> for a box inside the image.\<close>

definition crop :: "image \<Rightarrow> nat \<times> nat \<times> nat \<times> nat \<Rightarrow> image" where
  "crop img box = (case box of (l, u, r, b) \<Rightarrow> map (\<lambda>row. take (r - l) (drop l row)) (take (b - u) (drop u img)))"

definition cropped :: "image \<Rightarrow> image" where
  "cropped img =
     (let xs = where_xs img; ys = where_ys img;
          x1 = Min (set xs); x2 = Max (set xs);
          y1 = Min (set ys); y2 = Max (set ys)
      in crop img (x1, y1, x2 + 1, y2 + 1))"

text \<open>Python's \<open>int()\<close> of a float: truncation towards zero.\<close>

definition py_int :: "rat \<Rightarrow> int" where
  "py_int v = (if 0 \<le> v then \<lfloor>v\<rfloor> else \<lceil>v\<rceil>)"

text \<open>
  \<open>m = int(0.20 * max(w, h))\<close>. The literal 0.20 is read as the exact fifth: the binary64
  number is larger by about one part in ten to the sixteenth, and a multiple of a fifth is an integer or
  at least a fifth below the next one, so for every picture size the truncated product
  is the same integer.
\<close>

definition margin :: "nat \<Rightarrow> nat \<Rightarrow> nat" where
  "margin w h = nat (py_int ((1 / 5) * of_nat (max w h)))"

text \<open>\<open>dst.paste(src, (ox, oy))\<close> for a non-negative offset.\<close>

definition paste :: "image \<Rightarrow> nat \<times> nat \<Rightarrow> image \<Rightarrow> image" where
  "paste src off dst =
     (case off of (ox, oy) \<Rightarrow>
        map (\<lambda>i. map (\<lambda>j. if oy \<le> i \<and> i < oy + height src \<and> ox \<le> j \<and> j < ox + width src
                            then src ! (i - oy) ! (j - ox) else dst ! i ! j)
                   [0..<length (dst ! i)])
            [0..<length dst])"

text \<open>The local \<open>canvas\<close> after \<open>canvas.paste(cropped, (m, m))\<close>.\<close>

definition padded :: "image \<Rightarrow> image" where
  "padded img =
     (let c = cropped img; w = width c; h = height c; m = margin w h
      in paste c (m, m) (new_image (w + 2 * m) (h + 2 * m)))"

definition squared :: "image \<Rightarrow> image" where
  "squared img =
     (let c = padded img; side = max (width c) (height c)
      in paste c ((side - width c) div 2, (side - height c) div 2) (new_image side side))"

text \<open>
  \<open>ImageOps.invert\<close>, the division by 255.0 and \<open>np.clip(x * 1.2, 0, 1)\<close>, pixel by
  pixel. The float32 values are read as exact rationals.
\<close>

definition invert :: "pixel \<Rightarrow> pixel" where
  "invert p = 255 - p"

definition scale :: "pixel \<Rightarrow> rat" where
  "scale p = of_nat (unat p) / 255"

definition clip :: "rat \<Rightarrow> rat" where
  "clip v = min 1 (max 0 v)"

definition tensor_value :: "pixel \<Rightarrow> rat" where
  "tensor_value p = clip (scale (invert p) * (6 / 5))"

text \<open>\<open>reshape(1, n, n, 1)\<close> of an n by n array.\<close>

definition reshape :: "rat list list \<Rightarrow> tensor" where
  "reshape a = [map (map (\<lambda>v. [v])) a]"

definition preprocess_for_model :: "env \<Rightarrow> app_state \<Rightarrow> tensor" where
  "preprocess_for_model E s =
     (let img = image s; model_input = model_inputs (current_mode s)
      in if \<not> any_ink img
         then reshape (map (map scale) (new_image model_input model_input))
         else reshape (map (map tensor_value) (resize E model_input (squared img))))"

section \<open>Ranking and \<open>recognize\<close>\<close>

text \<open>
  \<open>np.argmax\<close> returns the first index of the maximum and raises on an empty vector.
\<close>

definition argmax :: "rat list \<Rightarrow> nat option" where
  "argmax ps = (if ps = [] then None else Some (hd (filter (\<lambda>i. ps ! i = Max (set ps)) [0..<length ps])))"

text \<open>\<open>np.argsort(probs)[::-1][:5]\<close>\<close>

definition top_indices :: "env \<Rightarrow> rat list \<Rightarrow> nat list" where
  "top_indices E ps = take 5 (rev (argsort E ps))"

definition resolve :: "language \<Rightarrow> label \<Rightarrow> string" where
  "resolve lang l = (case l of Single t \<Rightarrow> t | Pair native translit \<Rightarrow> (if lang = En then translit else native))"

definition lookup :: "'a list \<Rightarrow> nat \<Rightarrow> 'a option" where
  "lookup xs i = (if i < length xs then Some (xs ! i) else None)"

text \<open>
  The loop that fills the table; a label index out of range raises inside the \<open>try\<close>,
  which ends the loop with the rows inserted so far.
\<close>

fun fill_table :: "label list \<Rightarrow> language \<Rightarrow> rat list \<Rightarrow> nat list \<Rightarrow> (string \<times> rat) list \<Rightarrow> (string \<times> rat) list" where
  "fill_table labs lang ps [] rows = rows"
| "fill_table labs lang ps (i # is) rows =
     (case lookup labs i of
        None \<Rightarrow> rows
      | Some l \<Rightarrow> fill_table labs lang ps is (rows @ [(resolve lang l, ps ! i)]))"

text \<open>
  \<open>recognize\<close>: every exception is caught inside, and the message boxes change no
  state, so the handler always returns.
\<close>

definition recognize :: "env \<Rightarrow> app_state \<Rightarrow> app_state" where
  "recognize E s =
     (if \<not> any_ink (image s) then s
      else
        (case predict E (current_mode s) (preprocess_for_model E s) of
           None \<Rightarrow> s
         | Some probs \<Rightarrow>
             (case argmax probs of
                None \<Rightarrow> s
              | Some predicted_index \<Rightarrow>
                  (case lookup (current_labels s) predicted_index of
                     None \<Rightarrow> s
                   | Some l \<Rightarrow>
                       s\<lparr> result_label := LabelText (resolve (current_language s) l),
                          conf_bar := py_int (probs ! predicted_index * 100),
                          top_table := fill_table (current_labels s) (current_language s) probs
                                         (top_indices E probs) [] \<rparr>))))"

section \<open>Stroke log and rasteriser\<close>

definition reset_results :: "app_state \<Rightarrow> app_state" where
  "reset_results s = s\<lparr> result_label := DefaultText (current_language s), conf_bar := 0, top_table := [] \<rparr>"

definition change_mode :: "env \<Rightarrow> script \<Rightarrow> app_state \<Rightarrow> app_state" where
  "change_mode E mode_var s =
     reset_results (s\<lparr> current_mode := mode_var, current_labels := labels E mode_var,
                       mode_label := ModeText mode_var (current_language s) \<rparr>)"

definition start_stroke :: "event \<Rightarrow> app_state \<Rightarrow> app_state" where
  "start_stroke ev s =
     s\<lparr> last_x := Some (ev_x ev), last_y := Some (ev_y ev),
        strokes := strokes s @ [[]], redo_stack := [] \<rparr>"

text \<open>
  \<open>_paint\<close>: the line is drawn on the image before \<open>self.strokes[-1]\<close> is read, so the
  IndexError on an empty stroke list leaves the drawn image behind.
\<close>

definition paint :: "env \<Rightarrow> event \<Rightarrow> app_state \<Rightarrow> app_state outcome" where
  "paint E ev s =
     (case (last_x s, last_y s) of
        (Some lx, Some ly) \<Rightarrow>
          (let sg = (lx, ly, ev_x ev, ev_y ev);
               s1 = s\<lparr> image := draw_line E sg (line_width s) (image s) \<rparr>
           in if strokes s1 = [] then Raises IndexError s1
              else Returns (s1\<lparr> strokes := butlast (strokes s1) @ [last (strokes s1) @ [(sg, line_width s)]],
                                last_x := Some (ev_x ev), last_y := Some (ev_y ev) \<rparr>))
      | _ \<Rightarrow> Returns (s\<lparr> last_x := Some (ev_x ev), last_y := Some (ev_y ev) \<rparr>))"

definition end_stroke :: "env \<Rightarrow> event \<Rightarrow> app_state \<Rightarrow> app_state" where
  "end_stroke E ev s =
     (let s1 = s\<lparr> last_x := None, last_y := None \<rparr>
      in if auto_var s1 then recognize E s1 else s1)"

text \<open>The two nested loops of \<open>_redraw_from_strokes\<close>, from a blank bitmap.\<close>

definition replay :: "env \<Rightarrow> stroke list \<Rightarrow> image" where
  "replay E ss =
     foldl (\<lambda>im st. foldl (\<lambda>im' (sg, w). draw_line E sg w im') im st)
           (new_image canvas_size canvas_size) ss"

definition redraw_from_strokes :: "env \<Rightarrow> app_state \<Rightarrow> app_state" where
  "redraw_from_strokes E s = s\<lparr> image := replay E (strokes s) \<rparr>"

definition undo :: "env \<Rightarrow> app_state \<Rightarrow> app_state" where
  "undo E s =
     (if strokes s = [] then s
      else reset_results (redraw_from_strokes E
             (s\<lparr> strokes := butlast (strokes s), redo_stack := redo_stack s @ [last (strokes s)] \<rparr>)))"

definition redo :: "env \<Rightarrow> app_state \<Rightarrow> app_state" where
  "redo E s =
     (if redo_stack s = [] then s
      else reset_results (redraw_from_strokes E
             (s\<lparr> redo_stack := butlast (redo_stack s), strokes := strokes s @ [last (redo_stack s)] \<rparr>)))"

definition clear_canvas :: "app_state \<Rightarrow> app_state" where
  "clear_canvas s =
     reset_results (s\<lparr> image := new_image canvas_size canvas_size, strokes := [], redo_stack := [] \<rparr>)"

text \<open>The bindings of the canvas and of the keys, and the main loop over a queue of events.\<close>

datatype ui_event =
    Button1 event | B1Motion event | ButtonRelease1 event
  | KeyZ | KeyY | KeyC | KeyR | SelectMode script

fun dispatch :: "env \<Rightarrow> ui_event \<Rightarrow> app_state \<Rightarrow> app_state outcome" where
  "dispatch E (Button1 ev) s = Returns (start_stroke ev s)"
| "dispatch E (B1Motion ev) s = paint E ev s"
| "dispatch E (ButtonRelease1 ev) s = Returns (end_stroke E ev s)"
| "dispatch E KeyZ s = Returns (undo E s)"
| "dispatch E KeyY s = Returns (redo E s)"
| "dispatch E KeyC s = Returns (clear_canvas s)"
| "dispatch E KeyR s = Returns (recognize E s)"
| "dispatch E (SelectMode m) s = Returns (change_mode E m s)"

definition mainloop :: "env \<Rightarrow> ui_event list \<Rightarrow> app_state \<Rightarrow> app_state" where
  "mainloop E evs s = foldl (\<lambda>s' u. state_of (dispatch E u s')) s evs"

fun pointer_event :: "ui_event \<Rightarrow> bool" where
  "pointer_event (Button1 ev) = True"
| "pointer_event (B1Motion ev) = True"
| "pointer_event (ButtonRelease1 ev) = True"
| "pointer_event u = False"

section \<open>The single-family recognizer (hiragana\_gui.py)\<close>

text \<open>
  \<open>predict\<close> resizes the whole drawing with \<open>Image.resize((48, 48))\<close> (the parameter
  \<open>rs\<close>), inverts it and divides by 255.0. The new text of the result label is
  returned; \<open>None\<close> stands for an exception caught by the handler, which shows an error
  box and leaves the label as it was.
\<close>

datatype hira_result = NotRecognized | Predicted label rat

definition hira_preprocess :: "(nat \<Rightarrow> image \<Rightarrow> image) \<Rightarrow> image \<Rightarrow> tensor" where
  "hira_preprocess rs drawing = reshape (map (map scale) (map (map invert) (rs 48 drawing)))"

definition hira_predict :: "(nat \<Rightarrow> image \<Rightarrow> image) \<Rightarrow> (tensor \<Rightarrow> rat list option) \<Rightarrow> label list \<Rightarrow> image \<Rightarrow> hira_result option" where
  "hira_predict rs model labs drawing =
     (case model (hira_preprocess rs drawing) of
        None \<Rightarrow> None
      | Some predictions \<Rightarrow>
          (case argmax predictions of
             None \<Rightarrow> None
           | Some predicted_idx \<Rightarrow>
               (let confidence = Max (set predictions)
                in if confidence < 85 / 100 then Some NotRecognized
                   else (case lookup labs predicted_idx of
                           None \<Rightarrow> None
                         | Some char \<Rightarrow> Some (Predicted char confidence)))))"

section \<open>Auxiliary definitions\<close>

text \<open>
  The padding margin in the words of the specification: \<open>round(0.20 * max(w, h))\<close>.
  A multiple of one fifth is never half-way between two integers, so the rounding mode
  at ties plays no part.
\<close>

definition spec_margin :: "nat \<Rightarrow> nat \<Rightarrow> nat" where
  "spec_margin w h = nat (round ((1 / 5 :: rat) * of_nat (max w h)))"

text \<open>
  An argsort for the sample environment: the indices sorted by value with an insertion
  sort. It meets the contract of \<open>np.argsort\<close> (every index once, values ascending); the
  order it gives to equal values is its own choice, and the library may choose otherwise.
\<close>

definition sample_argsort :: "rat list \<Rightarrow> nat list" where
  "sample_argsort ps = sort_key (\<lambda>i. ps ! i) [0..<length ps]"

text \<open>The image is the replay of a non-empty stroke list.\<close>

definition synced :: "env \<Rightarrow> app_state \<Rightarrow> bool" where
  "synced E s \<longleftrightarrow> image s = replay E (strokes s) \<and> strokes s \<noteq> []"

text \<open>
  A sample environment for running the handlers on concrete inputs: a rasteriser that
  inks the two end points of a segment, a resize by nearest-neighbour sampling, a
  classifier with a tie at the maximum, the sample argsort and a three-entry label table.
\<close>

definition set_pixel :: "int \<Rightarrow> int \<Rightarrow> image \<Rightarrow> image" where
  "set_pixel px py img =
     (if 0 \<le> px \<and> 0 \<le> py \<and> nat py < length img \<and> nat px < length (img ! nat py)
      then img[nat py := (img ! nat py)[nat px := 0]] else img)"

definition sample_env :: env where
  "sample_env =
     \<lparr> draw_line = (\<lambda>sg w img. case sg of (x1, y1, x2, y2) \<Rightarrow> set_pixel x2 y2 (set_pixel x1 y1 img)),
       resize = (\<lambda>n img. map (\<lambda>i. map (\<lambda>j. img ! (i * height img div n) ! (j * width img div n)) [0..<n]) [0..<n]),
       predict = (\<lambda>m x. Some [1 / 4, 3 / 8, 3 / 8]),
       argsort = sample_argsort,
       labels = (\<lambda>m. [Pair ''a1'' ''a'', Pair ''i1'' ''i'', Single ''u'']) \<rparr>"

text \<open>Two small canvases: a horizontal stroke five pixels long, and one three pixels long.\<close>

definition stroke_img :: image where
  "stroke_img = [[255, 255, 255, 255, 255, 255, 255],
                 [255, 0, 0, 0, 0, 0, 255],
                 [255, 255, 255, 255, 255, 255, 255]]"

definition dot_img :: image where
  "dot_img = [[255, 255, 255, 255, 255],
              [255, 0, 17, 0, 255],
              [255, 255, 255, 255, 255]]"

section \<open>Stroke log: undo, redo, begin, extend\<close>

lemma any_ink_new_image: "\<not> any_ink (new_image w h)"
  by (auto simp: any_ink_def new_image_def list_ex_iff ink_def)

lemma recognize_frame:
  "image (recognize E s) = image s" "strokes (recognize E s) = strokes s"
  "redo_stack (recognize E s) = redo_stack s" "last_x (recognize E s) = last_x s"
  "last_y (recognize E s) = last_y s" "line_width (recognize E s) = line_width s"
  by (simp_all add: recognize_def split: option.splits)

text \<open>The spec's example: one stroke of one segment, begun, extended and ended.\<close>

lemma one_stroke:
  "strokes (mainloop E [Button1 (Event 1 1), B1Motion (Event 2 2), ButtonRelease1 (Event 2 2)] (init_state E))
     = [[((1, 1, 2, 2), 7)]]"
  "redo_stack (mainloop E [Button1 (Event 1 1), B1Motion (Event 2 2), ButtonRelease1 (Event 2 2)] (init_state E))
     = []"
  by (simp_all add: mainloop_def start_stroke_def paint_def end_stroke_def Let_def init_state_def
        recognize_frame)

text \<open>
  C5: for every state whose committed stroke list is non-empty, \<open>undo\<close> moves the last
  committed stroke to the end of the redo stack, and \<open>redo\<close> right after it moves the
  stroke back: both the committed list and the redo stack are as before the undo.
\<close>

theorem undo_redo_inverse:
  "strokes s \<noteq> [] \<Longrightarrow>
     strokes (undo E s) = butlast (strokes s)
   \<and> redo_stack (undo E s) = redo_stack s @ [last (strokes s)]
   \<and> strokes (redo E (undo E s)) = strokes s
   \<and> redo_stack (redo E (undo E s)) = redo_stack s"
  by (simp add: undo_def redo_def reset_results_def redraw_from_strokes_def)

theorem undo_redo_inverse_witness:
  "strokes (mainloop sample_env [Button1 (Event 1 1), B1Motion (Event 2 2), ButtonRelease1 (Event 2 2)]
              (init_state sample_env)) = [[((1, 1, 2, 2), 7)]]
   \<and> strokes (undo sample_env
        (mainloop sample_env [Button1 (Event 1 1), B1Motion (Event 2 2), ButtonRelease1 (Event 2 2)]
           (init_state sample_env))) = []
   \<and> redo_stack (undo sample_env
        (mainloop sample_env [Button1 (Event 1 1), B1Motion (Event 2 2), ButtonRelease1 (Event 2 2)]
           (init_state sample_env))) = [[((1, 1, 2, 2), 7)]]
   \<and> strokes (redo sample_env (undo sample_env
        (mainloop sample_env [Button1 (Event 1 1), B1Motion (Event 2 2), ButtonRelease1 (Event 2 2)]
           (init_state sample_env)))) = [[((1, 1, 2, 2), 7)]]
   \<and> redo_stack (redo sample_env (undo sample_env
        (mainloop sample_env [Button1 (Event 1 1), B1Motion (Event 2 2), ButtonRelease1 (Event 2 2)]
           (init_state sample_env)))) = []"
  using undo_redo_inverse [of "mainloop sample_env
          [Button1 (Event 1 1), B1Motion (Event 2 2), ButtonRelease1 (Event 2 2)] (init_state sample_env)"
          sample_env]
  by (simp add: one_stroke)

text \<open>
  C6: in every state, beginning a stroke empties the redo stack, and a \<open>redo\<close> issued right
  after it changes nothing at all: the state, and so both sequences, stay as they are.
\<close>

theorem redo_after_start_stroke:
  "redo_stack (start_stroke ev s) = [] \<and> redo E (start_stroke ev s) = start_stroke ev s"
  by (simp add: start_stroke_def redo_def)

text \<open>
  C7, as the code has it: when no pointer position is recorded, which is the case before
  any stroke was begun and after a stroke was ended, \<open>_paint\<close> does not fail. It records
  the position of the event and returns; the strokes, the redo stack and the image are
  untouched. After an ended stroke a second \<open>_paint\<close> returns as well, and appends its
  segment to that last stroke.
\<close>

theorem paint_without_position:
  "(last_x s = None \<or> last_y s = None \<longrightarrow>
      paint E ev s = Returns (s\<lparr> last_x := Some (ev_x ev), last_y := Some (ev_y ev) \<rparr>))
   \<and> paint E ev (init_state E)
       = Returns ((init_state E)\<lparr> last_x := Some (ev_x ev), last_y := Some (ev_y ev) \<rparr>)
   \<and> paint E ev (end_stroke E ev' s)
       = Returns ((end_stroke E ev' s)\<lparr> last_x := Some (ev_x ev), last_y := Some (ev_y ev) \<rparr>)
   \<and> (strokes s \<noteq> [] \<longrightarrow>
        (\<exists>s'. paint E ev2 (state_of (paint E ev (end_stroke E ev' s))) = Returns s'
           \<and> strokes s' = butlast (strokes s)
                @ [last (strokes s) @ [((ev_x ev, ev_y ev, ev_x ev2, ev_y ev2), line_width s)]]))"
proof -
  have none: "paint E ev t = Returns (t\<lparr> last_x := Some (ev_x ev), last_y := Some (ev_y ev) \<rparr>)"
    if "last_x t = None \<or> last_y t = None" for t
    using that by (auto simp: paint_def split: option.splits)
  have ini: "last_x (init_state E) = None"
    by (simp add: init_state_def)
  have ended: "last_x (end_stroke E ev' s) = None"
    by (simp add: end_stroke_def Let_def recognize_frame)
  have fr: "strokes (end_stroke E ev' s) = strokes s" "line_width (end_stroke E ev' s) = line_width s"
    by (simp_all add: end_stroke_def Let_def recognize_frame)
  have second: "\<exists>s'. paint E ev2 (state_of (paint E ev (end_stroke E ev' s))) = Returns s'
           \<and> strokes s' = butlast (strokes s)
                @ [last (strokes s) @ [((ev_x ev, ev_y ev, ev_x ev2, ev_y ev2), line_width s)]]"
    if "strokes s \<noteq> []"
    using that by (simp add: none[of "end_stroke E ev' s"] ended fr paint_def Let_def)
  show ?thesis
    using none[of s] none[of "init_state E"] none[of "end_stroke E ev' s"] ini ended second
    by blast
qed

theorem paint_without_position_witness:
  "last_x (init_state sample_env) = None
   \<and> paint sample_env (Event 5 5) (init_state sample_env)
       = Returns ((init_state sample_env)\<lparr> last_x := Some 5, last_y := Some 5 \<rparr>)
   \<and> strokes (start_stroke (Event 1 1) (init_state sample_env)) = [[]]
   \<and> (\<exists>s'. paint sample_env (Event 6 6) (state_of (paint sample_env (Event 5 5)
               (end_stroke sample_env (Event 3 3) (start_stroke (Event 1 1) (init_state sample_env)))))
             = Returns s'
           \<and> strokes s' = [[((5, 5, 6, 6), 7)]])"
proof -
  let ?s0 = "init_state sample_env"
  let ?s1 = "start_stroke (Event 1 1) (init_state sample_env)"
  have a: "last_x ?s0 = None"
    by (simp add: init_state_def)
  have b: "strokes ?s1 = [[]]" and w: "line_width ?s1 = 7"
    by (simp_all add: start_stroke_def init_state_def)
  have c: "paint sample_env (Event 5 5) ?s0 = Returns (?s0\<lparr> last_x := Some 5, last_y := Some 5 \<rparr>)"
    using paint_without_position [of ?s0 sample_env "Event 5 5" "Event 3 3" "Event 6 6"] by simp
  have "strokes ?s1 \<noteq> [] \<longrightarrow>
        (\<exists>s'. paint sample_env (Event 6 6) (state_of (paint sample_env (Event 5 5)
               (end_stroke sample_env (Event 3 3) ?s1))) = Returns s'
           \<and> strokes s' = butlast (strokes ?s1)
                @ [last (strokes ?s1) @ [((5, 5, 6, 6), line_width ?s1)]])"
    using paint_without_position [of ?s1 sample_env "Event 5 5" "Event 3 3" "Event 6 6"]
    unfolding event.sel by blast
  then have d: "\<exists>s'. paint sample_env (Event 6 6) (state_of (paint sample_env (Event 5 5)
               (end_stroke sample_env (Event 3 3) ?s1))) = Returns s'
           \<and> strokes s' = [[((5, 5, 6, 6), 7)]]"
    unfolding b w by simp
  show ?thesis
    using a b c d by blast
qed

text \<open>
  The claim as written fails on a fresh application: the first pointer motion, with no
  stroke ever begun, returns normally.
\<close>

theorem paint_no_active_stroke_counterexample:
  "paint sample_env (Event 5 5) (init_state sample_env)
     = Returns ((init_state sample_env) \<lparr> last_x := Some 5, last_y := Some 5 \<rparr>)"
  by (simp add: paint_def init_state_def)

text \<open>
  C8: \<open>_paint\<close> raises exactly when a pointer position is recorded and the stroke list is
  empty. With no position recorded it stores the event position and returns without
  drawing or appending. \<open>clear_canvas\<close> keeps the recorded position and empties the
  stroke list, so a \<open>_paint\<close> after a clear in the middle of a stroke raises IndexError.
\<close>

theorem paint_raises_iff:
  "((\<exists>e s'. paint E ev s = Raises e s') \<longleftrightarrow> (last_x s \<noteq> None \<and> last_y s \<noteq> None \<and> strokes s = []))
   \<and> (last_x s = None \<or> last_y s = None \<longrightarrow>
        paint E ev s = Returns (s\<lparr> last_x := Some (ev_x ev), last_y := Some (ev_y ev) \<rparr>))
   \<and> last_x (clear_canvas s) = last_x s \<and> last_y (clear_canvas s) = last_y s
   \<and> strokes (clear_canvas s) = []
   \<and> (\<exists>s'. paint E ev (clear_canvas (start_stroke ev0 s)) = Raises IndexError s')"
proof -
  have "(\<exists>e s'. paint E ev s = Raises e s') \<longleftrightarrow> (last_x s \<noteq> None \<and> last_y s \<noteq> None \<and> strokes s = [])"
    by (auto simp: paint_def Let_def split: option.splits)
  moreover have "last_x s = None \<or> last_y s = None \<longrightarrow>
        paint E ev s = Returns (s\<lparr> last_x := Some (ev_x ev), last_y := Some (ev_y ev) \<rparr>)"
    by (auto simp: paint_def split: option.splits)
  moreover have "last_x (clear_canvas s) = last_x s \<and> last_y (clear_canvas s) = last_y s
      \<and> strokes (clear_canvas s) = []"
    by (simp add: clear_canvas_def reset_results_def)
  moreover have "\<exists>s'. paint E ev (clear_canvas (start_stroke ev0 s)) = Raises IndexError s'"
    by (simp add: paint_def Let_def clear_canvas_def reset_results_def start_stroke_def)
  ultimately show ?thesis by blast
qed

theorem paint_raises_iff_witness:
  "last_x (init_state sample_env) = None
   \<and> paint sample_env (Event 2 2) (init_state sample_env)
       = Returns ((init_state sample_env) \<lparr> last_x := Some 2, last_y := Some 2 \<rparr>)
   \<and> last_x (clear_canvas (start_stroke (Event 1 1) (init_state sample_env))) \<noteq> None
   \<and> last_y (clear_canvas (start_stroke (Event 1 1) (init_state sample_env))) \<noteq> None
   \<and> strokes (clear_canvas (start_stroke (Event 1 1) (init_state sample_env))) = []
   \<and> (\<exists>e s'. paint sample_env (Event 2 2) (clear_canvas (start_stroke (Event 1 1) (init_state sample_env)))
               = Raises e s')"
  using paint_raises_iff [of sample_env "Event 2 2" "init_state sample_env"]
        paint_raises_iff [of sample_env "Event 2 2" "clear_canvas (start_stroke (Event 1 1) (init_state sample_env))"]
  by (simp add: init_state_def start_stroke_def clear_canvas_def reset_results_def)

text \<open>
  C10: \<open>change_mode\<close> leaves the stroke list, the redo stack and the image as they are.
  It sets the current mode, the label table and the mode line, and resets the displayed
  results; every other field keeps its value.
\<close>

theorem change_mode_frame:
  "strokes (change_mode E m s) = strokes s
   \<and> redo_stack (change_mode E m s) = redo_stack s
   \<and> image (change_mode E m s) = image s
   \<and> change_mode E m s =
       s\<lparr> current_mode := m, current_labels := labels E m,
          mode_label := ModeText m (current_language s),
          result_label := DefaultText (current_language s), conf_bar := 0, top_table := [] \<rparr>"
  by (simp add: change_mode_def reset_results_def)

section \<open>Rasteriser: incremental drawing against full replay\<close>

lemma replay_snoc:
  "replay E (ss @ [st]) = foldl (\<lambda>im' (sg, w). draw_line E sg w im') (replay E ss) st"
  by (simp add: replay_def)

lemma replay_open: "replay E (ss @ [[]]) = replay E ss"
  by (simp add: replay_snoc)

lemma replay_extend:
  assumes "ss \<noteq> []"
  shows "replay E (butlast ss @ [last ss @ [(sg, w)]]) = draw_line E sg w (replay E ss)"
proof -
  have "replay E ss = replay E (butlast ss @ [last ss])"
    using assms by simp
  then show ?thesis
    by (simp only: replay_snoc foldl_append) simp
qed

text \<open>
  Once a stroke has been begun, the three pointer handlers keep the image equal to the
  replay of the stroke list.
\<close>

lemma synced_dispatch:
  assumes "pointer_event u" "synced E s"
  shows "synced E (state_of (dispatch E u s))"
proof (cases u)
  case (Button1 ev)
  with assms show ?thesis
    by (simp add: synced_def start_stroke_def replay_open)
next
  case (B1Motion ev)
  with assms show ?thesis
    by (auto simp: synced_def paint_def Let_def replay_extend split: option.splits)
next
  case (ButtonRelease1 ev)
  with assms show ?thesis
    by (simp add: synced_def end_stroke_def Let_def recognize_frame)
qed (use assms in simp_all)

lemma synced_mainloop:
  "\<forall>u\<in>set evs. pointer_event u \<Longrightarrow> synced E s \<Longrightarrow> synced E (mainloop E evs s)"
  unfolding mainloop_def
  by (induction evs arbitrary: s) (simp_all add: synced_dispatch)

lemma replay_after_begin:
  assumes "\<forall>u\<in>set evs. pointer_event u"
  shows "image (mainloop E (Button1 ev # evs) (init_state E))
           = replay E (strokes (mainloop E (Button1 ev # evs) (init_state E)))"
proof -
  have "synced E (start_stroke ev (init_state E))"
    by (simp add: synced_def start_stroke_def init_state_def replay_def)
  then have "synced E (mainloop E evs (start_stroke ev (init_state E)))"
    using assms by (rule synced_mainloop[rotated])
  then show ?thesis
    by (simp add: synced_def mainloop_def)
qed

text \<open>
  C4: the code at two pointer motions on a fresh application, with no stroke begun. The
  first motion records its position; the second draws the segment on the image and then
  raises on the empty stroke list. The image holds the segment, the stroke list is
  empty, and the replay of the stroke list is the blank bitmap: with a rasteriser that
  inks the end points of a segment the two images differ.
\<close>

theorem motion_before_begin_breaks_replay:
  "image (mainloop E [B1Motion (Event 10 10), B1Motion (Event 20 20)] (init_state E))
     = draw_line E (10, 10, 20, 20) 7 (new_image canvas_size canvas_size)
   \<and> strokes (mainloop E [B1Motion (Event 10 10), B1Motion (Event 20 20)] (init_state E)) = []
   \<and> replay E (strokes (mainloop E [B1Motion (Event 10 10), B1Motion (Event 20 20)] (init_state E)))
     = new_image canvas_size canvas_size
   \<and> image (mainloop sample_env [B1Motion (Event 10 10), B1Motion (Event 20 20)] (init_state sample_env))
     \<noteq> replay sample_env
          (strokes (mainloop sample_env [B1Motion (Event 10 10), B1Motion (Event 20 20)] (init_state sample_env)))"
proof -
  let ?evs = "[B1Motion (Event 10 10), B1Motion (Event 20 20)]"
  let ?s = "mainloop sample_env ?evs (init_state sample_env)"
  have general:
    "image (mainloop E ?evs (init_state E)) = draw_line E (10, 10, 20, 20) 7 (new_image canvas_size canvas_size)
     \<and> strokes (mainloop E ?evs (init_state E)) = []
     \<and> replay E (strokes (mainloop E ?evs (init_state E))) = new_image canvas_size canvas_size"
    by (simp add: mainloop_def paint_def init_state_def Let_def replay_def)
  have "image ?s ! 10 ! 10 = 0"
    by (simp add: mainloop_def paint_def init_state_def Let_def sample_env_def set_pixel_def
          new_image_def canvas_size_def)
  moreover have "replay sample_env (strokes ?s) ! 10 ! 10 = 255"
    by (simp add: mainloop_def paint_def init_state_def Let_def replay_def new_image_def canvas_size_def)
  ultimately have "image ?s \<noteq> replay sample_env (strokes ?s)"
    by auto
  with general show ?thesis by blast
qed

section \<open>Ranking\<close>

text \<open>What any argsort gives: the indices of the vector, each once, in ascending order of value.\<close>

lemma argsort_length:
  assumes "distinct r" "set r = {0..<n}"
  shows "length r = n"
  using assms distinct_card[of r] by simp

lemma top_indices_descending:
  assumes "sorted (map ((!) ps) (argsort E ps))"
  shows "sorted_wrt (\<lambda>a b. ps ! b \<le> ps ! a) (top_indices E ps)"
proof -
  have "sorted_wrt (\<lambda>a b. ps ! a \<le> ps ! b) (argsort E ps)"
    using assms by (simp add: sorted_wrt_map)
  then have "sorted_wrt (\<lambda>a b. ps ! b \<le> ps ! a) (rev (argsort E ps))"
    by (simp add: sorted_wrt_rev)
  then show ?thesis
    unfolding top_indices_def by (rule sorted_wrt_take)
qed

lemma top_indices_hd_max:
  assumes d: "distinct (argsort E ps)" and st: "set (argsort E ps) = {0..<length ps}"
    and so: "sorted (map ((!) ps) (argsort E ps))" and ne: "ps \<noteq> []"
  shows "ps ! hd (top_indices E ps) = Max (set ps)"
proof -
  let ?r = "argsort E ps"
  have rne: "?r \<noteq> []"
    using argsort_length[OF d st] ne by auto
  then have hd: "hd (top_indices E ps) = last ?r"
    by (simp add: top_indices_def hd_rev)
  have "last ?r \<in> set ?r"
    using rne by simp
  then have k: "last ?r < length ps"
    using st by simp
  have sw: "sorted_wrt (\<lambda>a b. ps ! a \<le> ps ! b) (butlast ?r @ [last ?r])"
    using so rne by (simp add: sorted_wrt_map)
  have le: "ps ! i \<le> ps ! last ?r" if "i < length ps" for i
  proof -
    have "i \<in> set (butlast ?r @ [last ?r])"
      using that st rne by simp
    then show ?thesis
      using sw by (auto simp: sorted_wrt_append)
  qed
  have "Max (set ps) = ps ! last ?r"
  proof (rule Max_eqI)
    show "finite (set ps)" by simp
    show "y \<le> ps ! last ?r" if "y \<in> set ps" for y
      using that le by (auto simp: in_set_conv_nth)
    show "ps ! last ?r \<in> set ps" using k by simp
  qed
  then show ?thesis by (simp add: hd)
qed

lemma top_indices_nth:
  assumes "distinct (argsort E ps)" "set (argsort E ps) = {0..<length ps}"
    and "i < length (top_indices E ps)"
  shows "top_indices E ps ! i = argsort E ps ! (length ps - 1 - i)"
proof -
  have n: "length (argsort E ps) = length ps"
    using argsort_length[OF assms(1,2)] .
  have i: "i < 5" "i < length ps"
    using assms(3) n by (simp_all add: top_indices_def)
  then have "top_indices E ps ! i = rev (argsort E ps) ! i"
    by (simp add: top_indices_def)
  also have "\<dots> = argsort E ps ! (length (argsort E ps) - Suc i)"
    using i n by (simp add: rev_nth)
  finally show ?thesis
    by (simp add: n)
qed

text \<open>\<open>np.argmax\<close> gives the lowest index that holds the maximum.\<close>

lemma argmax_lowest:
  assumes ne: "ps \<noteq> []"
  shows "\<exists>k. argmax ps = Some k \<and> k < length ps \<and> ps ! k = Max (set ps)
           \<and> (\<forall>i < length ps. ps ! i = Max (set ps) \<longrightarrow> k \<le> i)"
proof -
  let ?hits = "filter (\<lambda>i. ps ! i = Max (set ps)) [0..<length ps]"
  have "Max (set ps) \<in> set ps"
    using ne by simp
  then obtain i0 where "i0 < length ps" "ps ! i0 = Max (set ps)"
    by (auto simp: in_set_conv_nth)
  then have hne: "?hits \<noteq> []"
    by (auto simp: filter_empty_conv)
  then have "hd ?hits \<in> set ?hits"
    by (rule hd_in_set)
  then have k: "hd ?hits < length ps" "ps ! hd ?hits = Max (set ps)"
    by simp_all
  have "sorted ?hits"
    by (rule sorted_wrt_filter) simp
  then have low: "hd ?hits \<le> i" if "i \<in> set ?hits" for i
    using that hne by (cases ?hits) auto
  have "hd ?hits \<le> i" if "i < length ps" "ps ! i = Max (set ps)" for i
    using low[of i] that by simp
  moreover have "argmax ps = Some (hd ?hits)"
    using ne by (simp add: argmax_def)
  ultimately show ?thesis
    using k by blast
qed

text \<open>
  C3, as the code has it: whenever \<open>np.argsort\<close> returns the class indices, each once, in
  ascending order of probability, the top-5 listing holds \<open>min 5 N\<close> distinct class
  indices in descending order of probability and starts with a class of maximal
  probability. Entry \<open>i\<close> of the listing is entry \<open>N - 1 - i\<close> of the argsort, so classes
  of equal probability are listed in the reverse of the order \<open>np.argsort\<close> gives them;
  the code adds no tie-break of its own. The best label is taken with \<open>np.argmax\<close>, which
  gives the lowest class index among the tied maxima.
\<close>

theorem top_indices_order:
  assumes "distinct (argsort E ps)" and "set (argsort E ps) = {0..<length ps}"
    and "sorted (map ((!) ps) (argsort E ps))"
  shows "length (top_indices E ps) = min 5 (length ps)
   \<and> distinct (top_indices E ps)
   \<and> (\<forall>i j. i < j \<and> j < length (top_indices E ps) \<longrightarrow>
        ps ! (top_indices E ps ! j) \<le> ps ! (top_indices E ps ! i))
   \<and> (\<forall>i. i < length (top_indices E ps) \<longrightarrow>
        top_indices E ps ! i = argsort E ps ! (length ps - 1 - i))
   \<and> (ps \<noteq> [] \<longrightarrow>
        ps ! hd (top_indices E ps) = Max (set ps)
        \<and> (\<exists>k. argmax ps = Some k \<and> k < length ps \<and> ps ! k = Max (set ps)
              \<and> (\<forall>i < length ps. ps ! i = Max (set ps) \<longrightarrow> k \<le> i)))"
proof -
  have "length (top_indices E ps) = min 5 (length ps)"
    using argsort_length[OF assms(1,2)] by (simp add: top_indices_def)
  moreover have "distinct (top_indices E ps)"
    using assms(1) by (simp add: top_indices_def)
  moreover have "\<forall>i j. i < j \<and> j < length (top_indices E ps) \<longrightarrow>
        ps ! (top_indices E ps ! j) \<le> ps ! (top_indices E ps ! i)"
    using top_indices_descending[OF assms(3)] by (simp add: sorted_wrt_iff_nth_less)
  moreover have "\<forall>i. i < length (top_indices E ps) \<longrightarrow>
        top_indices E ps ! i = argsort E ps ! (length ps - 1 - i)"
    using top_indices_nth[OF assms(1,2)] by blast
  moreover have "ps \<noteq> [] \<longrightarrow> ps ! hd (top_indices E ps) = Max (set ps)"
    using top_indices_hd_max[OF assms] by simp
  moreover have "ps \<noteq> [] \<longrightarrow>
        (\<exists>k. argmax ps = Some k \<and> k < length ps \<and> ps ! k = Max (set ps)
              \<and> (\<forall>i < length ps. ps ! i = Max (set ps) \<longrightarrow> k \<le> i))"
    using argmax_lowest[of ps] by blast
  ultimately show ?thesis
    by blast
qed

text \<open>
  The theorem at the vector \<open>[1/4, 3/8, 3/8]\<close>, with the sample argsort and with one that
  returns equal values in descending index order: both meet the hypotheses, and the
  listings start with the class 2 and with the class 1, while \<open>argmax\<close> gives 1.
\<close>

theorem top_indices_order_witness:
  "argsort sample_env [1 / 4, 3 / 8, 3 / 8] = [0, 1, 2]
   \<and> top_indices sample_env [1 / 4, 3 / 8, 3 / 8] = [2, 1, 0]
   \<and> argsort (sample_env\<lparr> argsort := \<lambda>ps. rev (sort_key (\<lambda>i. - (ps ! i)) [0..<length ps]) \<rparr>)
        [1 / 4, 3 / 8, 3 / 8] = [0, 2, 1]
   \<and> top_indices (sample_env\<lparr> argsort := \<lambda>ps. rev (sort_key (\<lambda>i. - (ps ! i)) [0..<length ps]) \<rparr>)
        [1 / 4, 3 / 8, 3 / 8] = [1, 2, 0]
   \<and> [1 / 4, 3 / 8, 3 / 8 :: rat] ! hd (top_indices sample_env [1 / 4, 3 / 8, 3 / 8])
       = Max (set [1 / 4, 3 / 8, 3 / 8])
   \<and> argmax [1 / 4, 3 / 8, 3 / 8] = Some 1"
proof -
  let ?ps = "[1 / 4, 3 / 8, 3 / 8 :: rat]"
  let ?E2 = "sample_env\<lparr> argsort := \<lambda>ps. rev (sort_key (\<lambda>i. - (ps ! i)) [0..<length ps]) \<rparr>"
  have r: "argsort sample_env ?ps = [0, 1, 2]"
    by (simp add: sample_env_def sample_argsort_def upt_rec)
  have r2: "argsort ?E2 ?ps = [0, 2, 1]"
    by (simp add: upt_rec)
  have d: "distinct (argsort sample_env ?ps)" and d2: "distinct (argsort ?E2 ?ps)"
    unfolding r r2 by simp_all
  have st: "set (argsort sample_env ?ps) = {0..<length ?ps}"
    and st2: "set (argsort ?E2 ?ps) = {0..<length ?ps}"
    unfolding r r2 by auto
  have so: "sorted (map ((!) ?ps) (argsort sample_env ?ps))"
    and so2: "sorted (map ((!) ?ps) (argsort ?E2 ?ps))"
    unfolding r r2 by simp_all
  have a: "argmax ?ps = Some 1"
    by (simp add: argmax_def upt_rec)
  have t: "top_indices sample_env ?ps = [2, 1, 0]" and t2: "top_indices ?E2 ?ps = [1, 2, 0]"
    unfolding top_indices_def r r2 by simp_all
  have "?ps ! hd (top_indices sample_env ?ps) = Max (set ?ps)"
    using top_indices_order [OF d st so] by simp
  moreover have "?ps ! hd (top_indices ?E2 ?ps) = Max (set ?ps)"
    using top_indices_order [OF d2 st2 so2] by simp
  ultimately show ?thesis
    using r r2 t t2 a by simp
qed

text \<open>
  The claim as written fails on a vector with the maximum at the indices 0 and 1: the
  argsort gives \<open>[0, 1]\<close>, so the listing starts with the index 1, while \<open>argmax\<close>, which
  picks the displayed best label, gives 0.
\<close>

theorem top_indices_tie_counterexample:
  "argsort sample_env [1 / 2, 1 / 2] = [0, 1]
   \<and> top_indices sample_env [1 / 2, 1 / 2] = [1, 0]
   \<and> argmax [1 / 2, 1 / 2] = Some 0"
  by (simp add: top_indices_def sample_env_def sample_argsort_def argmax_def)

section \<open>Normalizer\<close>

lemma scale_255: "scale 255 = 1"
  by (simp add: scale_def)

text \<open>
  C1: on a canvas with no ink the normalizer returns, without raising, a tensor of shape
  \<open>(1, n, n, 1)\<close> for the \<open>n\<close> of the current mode, and every entry of it is 1. In the
  branch for a canvas with ink a background pixel (255) becomes 0 and full ink (0)
  becomes 1, so the tensor returned for the empty canvas is the one of a canvas covered
  in ink.
\<close>

theorem blank_canvas_tensor:
  "\<not> any_ink (image s) \<Longrightarrow>
     preprocess_for_model E s
       = [replicate (model_inputs (current_mode s)) (replicate (model_inputs (current_mode s)) [1])]
   \<and> tensor_value 255 = 0 \<and> tensor_value 0 = 1"
  by (simp add: preprocess_for_model_def Let_def reshape_def new_image_def scale_255
        tensor_value_def clip_def scale_def invert_def)

theorem blank_canvas_tensor_witness:
  "\<not> any_ink (image (init_state sample_env))
   \<and> preprocess_for_model sample_env (init_state sample_env) = [replicate 48 (replicate 48 [1])]"
  using blank_canvas_tensor [of "init_state sample_env" sample_env]
  by (simp add: init_state_def model_inputs_def any_ink_new_image)

lemma margin_div: "margin w h = max w h div 5"
proof -
  have "\<lfloor>(1 / 5 :: rat) * of_nat n\<rfloor> = int (n div 5)" for n :: nat
  proof -
    have "(1 / 5 :: rat) * of_nat n = of_int (int n) / of_int 5"
      by simp
    then have "\<lfloor>(1 / 5 :: rat) * of_nat n\<rfloor> = int n div 5"
      by (simp only: floor_divide_of_int_eq)
    then show ?thesis by (simp add: zdiv_int)
  qed
  then show ?thesis by (simp add: margin_def py_int_def)
qed

lemma paste_length: "length (paste src off dst) = length dst"
  by (simp add: paste_def split: prod.splits)

lemma paste_row_length: "i < length dst \<Longrightarrow> length (paste src off dst ! i) = length (dst ! i)"
  by (simp add: paste_def split: prod.splits)

lemma paste_nth:
  "i < length dst \<Longrightarrow> j < length (dst ! i) \<Longrightarrow>
   paste src (ox, oy) dst ! i ! j =
     (if oy \<le> i \<and> i < oy + height src \<and> ox \<le> j \<and> j < ox + width src
      then src ! (i - oy) ! (j - ox) else dst ! i ! j)"
  by (simp add: paste_def)

lemma new_image_nth:
  "length (new_image w h) = h" "i < h \<Longrightarrow> length (new_image w h ! i) = w"
  "i < h \<Longrightarrow> j < w \<Longrightarrow> new_image w h ! i ! j = 255"
  by (simp_all add: new_image_def)

lemma padded_shape:
  fixes img :: image
  defines "c \<equiv> cropped img"
  defines "m \<equiv> max (width c) (height c) div 5"
  shows "length (padded img) = height c + 2 * m"
    and "i < height c + 2 * m \<Longrightarrow> length (padded img ! i) = width c + 2 * m"
    and "i < height c + 2 * m \<Longrightarrow> j < width c + 2 * m \<Longrightarrow>
         padded img ! i ! j =
           (if m \<le> i \<and> i < m + height c \<and> m \<le> j \<and> j < m + width c
            then c ! (i - m) ! (j - m) else 255)"
  unfolding c_def m_def
  by (simp_all add: padded_def Let_def margin_div paste_length paste_row_length paste_nth new_image_nth)

lemma set_where_ys:
  "set (where_ys img) = {i. i < length img \<and> (\<exists>j < length (img ! i). ink (img ! i ! j))}"
  by (auto simp: where_ys_def)

lemma set_where_xs:
  "set (where_xs img) = {j. \<exists>i < length img. j < length (img ! i) \<and> ink (img ! i ! j)}"
  by (auto simp: where_xs_def)

lemma any_ink_iff:
  "any_ink img \<longleftrightarrow> (\<exists>i < length img. \<exists>j < length (img ! i). ink (img ! i ! j))"
proof
  assume "any_ink img"
  then obtain row p where "row \<in> set img" "p \<in> set row" "ink p"
    by (auto simp: any_ink_def list_ex_iff)
  then obtain i j where "i < length img" "img ! i = row" "j < length row" "row ! j = p"
    by (metis in_set_conv_nth)
  then show "\<exists>i < length img. \<exists>j < length (img ! i). ink (img ! i ! j)"
    using \<open>ink p\<close> by blast
next
  assume "\<exists>i < length img. \<exists>j < length (img ! i). ink (img ! i ! j)"
  then obtain i j where "i < length img" "j < length (img ! i)" "ink (img ! i ! j)"
    by blast
  then have "img ! i \<in> set img" "img ! i ! j \<in> set (img ! i)"
    by simp_all
  then show "any_ink img"
    using \<open>ink (img ! i ! j)\<close> by (auto simp: any_ink_def list_ex_iff)
qed

lemma width_hd: "img \<noteq> [] \<Longrightarrow> width img = length (hd img)"
  by (cases img) (simp_all add: width_def)

text \<open>The tight crop of a rectangular canvas with ink spans the bounding box, bounds included.\<close>

lemma cropped_size:
  assumes ink: "any_ink img" and rect: "\<forall>row \<in> set img. length row = W"
  shows "height (cropped img) = Max (set (where_ys img)) + 1 - Min (set (where_ys img))"
    and "width (cropped img) = Max (set (where_xs img)) + 1 - Min (set (where_xs img))"
    and "0 < height (cropped img)" and "0 < width (cropped img)"
proof -
  let ?ys = "set (where_ys img)" and ?xs = "set (where_xs img)"
  have ne: "?ys \<noteq> {}" "?xs \<noteq> {}"
    using ink by (auto simp: any_ink_iff set_where_ys set_where_xs)
  have "Max ?ys \<in> ?ys" "Min ?ys \<in> ?ys" "Max ?xs \<in> ?xs" "Min ?xs \<in> ?xs"
    using ne by simp_all
  then have y2: "Max ?ys < length img" and x2: "Max ?xs < W" and y1: "Min ?ys < length img"
    using rect by (auto simp: set_where_ys set_where_xs)
  have le: "Min ?ys \<le> Max ?ys" "Min ?xs \<le> Max ?xs"
    using ne by simp_all
  show h: "height (cropped img) = Max ?ys + 1 - Min ?ys"
    using y2 by (simp add: cropped_def Let_def crop_def height_def)
  then show "0 < height (cropped img)"
    using le by simp
  have rows: "take (Max ?ys + 1 - Min ?ys) (drop (Min ?ys) img) \<noteq> []"
    using y1 le by simp
  have "hd (take (Max ?ys + 1 - Min ?ys) (drop (Min ?ys) img)) = img ! Min ?ys"
    using y1 le by (simp add: hd_drop_conv_nth)
  moreover have "length (img ! Min ?ys) = W"
    using rect y1 by simp
  ultimately have "length (hd (take (Max ?ys + 1 - Min ?ys) (drop (Min ?ys) img))) = W"
    by simp
  then show w: "width (cropped img) = Max ?xs + 1 - Min ?xs"
    using rows x2 by (simp add: cropped_def Let_def crop_def width_hd hd_map)
  then show "0 < width (cropped img)"
    using le by simp
qed

text \<open>
  C2, as the code has it: for a rectangular canvas with at least one ink pixel the tight
  crop is \<open>w\<close> by \<open>h\<close> pixels with \<open>w, h \<ge> 1\<close>, the margin is the product
  \<open>0.20 * max(w, h)\<close> truncated to an integer, that is \<open>max w h div 5\<close>, and the padded
  picture is \<open>w + 2m\<close> by \<open>h + 2m\<close>: the crop at offset \<open>(m, m)\<close> and background (255)
  everywhere else.
\<close>

theorem padded_margin:
  assumes "any_ink img" and "\<forall>row \<in> set img. length row = W"
  shows "0 < width (cropped img) \<and> 0 < height (cropped img)
    \<and> margin (width (cropped img)) (height (cropped img))
        = max (width (cropped img)) (height (cropped img)) div 5
    \<and> length (padded img)
        = height (cropped img) + 2 * margin (width (cropped img)) (height (cropped img))
    \<and> (\<forall>i < length (padded img).
          length (padded img ! i)
            = width (cropped img) + 2 * margin (width (cropped img)) (height (cropped img))
          \<and> (\<forall>j < length (padded img ! i).
                padded img ! i ! j =
                  (if margin (width (cropped img)) (height (cropped img)) \<le> i
                      \<and> i < margin (width (cropped img)) (height (cropped img)) + height (cropped img)
                      \<and> margin (width (cropped img)) (height (cropped img)) \<le> j
                      \<and> j < margin (width (cropped img)) (height (cropped img)) + width (cropped img)
                   then cropped img ! (i - margin (width (cropped img)) (height (cropped img)))
                                    ! (j - margin (width (cropped img)) (height (cropped img)))
                   else 255)))"
  using cropped_size(3,4)[OF assms] padded_shape[where img = img]
  by (simp add: margin_div)

theorem padded_margin_witness:
  "any_ink stroke_img \<and> map length stroke_img = [7, 7, 7]
   \<and> width (cropped stroke_img) = 5 \<and> height (cropped stroke_img) = 1
   \<and> margin (width (cropped stroke_img)) (height (cropped stroke_img)) = 1
   \<and> length (padded stroke_img) = 3
   \<and> padded stroke_img ! 0 ! 1 = 255 \<and> padded stroke_img ! 1 ! 0 = 255
   \<and> padded stroke_img ! 1 ! 1 = 0"
proof -
  have ink: "any_ink stroke_img"
    by (simp add: stroke_img_def any_ink_def ink_def)
  have rect: "\<forall>row \<in> set stroke_img. length row = 7"
    by (simp add: stroke_img_def)
  have c: "cropped stroke_img = [[0, 0, 0, 0, 0]]"
    by code_simp
  have p: "padded stroke_img = [[255, 255, 255, 255, 255, 255, 255], [255, 0, 0, 0, 0, 0, 255],
                                [255, 255, 255, 255, 255, 255, 255]]"
    by code_simp
  have "map length stroke_img = [7, 7, 7]"
    by (simp add: stroke_img_def)
  then show ?thesis
    using padded_margin [OF ink rect] ink
    by (simp add: c p margin_div width_def height_def)
qed

text \<open>
  The claim as written fails on a stroke three pixels long: the specification's margin is
  \<open>round(0.6) = 1\<close>, the code's is \<open>int(0.6) = 0\<close>, and the padded picture is the bare
  crop.
\<close>

theorem margin_round_counterexample:
  "any_ink dot_img
   \<and> width (cropped dot_img) = 3 \<and> height (cropped dot_img) = 1
   \<and> spec_margin (width (cropped dot_img)) (height (cropped dot_img)) = 1
   \<and> margin (width (cropped dot_img)) (height (cropped dot_img)) = 0
   \<and> padded dot_img = [[0, 17, 0]]"
proof -
  have ink: "any_ink dot_img"
    by (simp add: dot_img_def any_ink_def ink_def)
  have c: "cropped dot_img = [[0, 17, 0]]"
    by code_simp
  have p: "padded dot_img = [[0, 17, 0]]"
    by code_simp
  have "round (3 / 5 :: rat) = 1"
    by (rule round_unique) simp_all
  then show ?thesis
    using ink by (simp add: c p margin_div spec_margin_def width_def height_def)
qed

section \<open>Single-family recognizer: threshold and preprocessing\<close>

lemma argmax_max:
  assumes "argmax ps = Some k"
  shows "k < length ps \<and> ps ! k = Max (set ps)"
proof -
  have ne: "ps \<noteq> []"
    using assms by (auto simp: argmax_def split: if_splits)
  then have "Max (set ps) \<in> set ps"
    by simp
  then obtain i where "i < length ps" "ps ! i = Max (set ps)"
    by (auto simp: in_set_conv_nth)
  then have "filter (\<lambda>i. ps ! i = Max (set ps)) [0..<length ps] \<noteq> []"
    by (auto simp: filter_empty_conv)
  then have "hd (filter (\<lambda>i. ps ! i = Max (set ps)) [0..<length ps])
               \<in> set (filter (\<lambda>i. ps ! i = Max (set ps)) [0..<length ps])"
    by (rule hd_in_set)
  moreover have "k = hd (filter (\<lambda>i. ps ! i = Max (set ps)) [0..<length ps])"
    using assms ne by (simp add: argmax_def)
  ultimately show ?thesis by simp
qed

text \<open>
  C9: \<open>predict\<close> of the hiragana recognizer shows a label only when the maximum
  probability is at least 0.85, and then it is the label at the arg-max together with
  that maximum; whenever the classifier answers with a maximum below 0.85 the text is
  "Not recognized as hiragana". The tensor handed to the classifier is the whole
  drawing resized to 48 by 48, each pixel \<open>r\<close> turned into \<open>(255 - r) / 255\<close>: no crop,
  padding, centering or contrast factor.
\<close>

theorem hira_predict_threshold:
  "(hira_predict rs model labs drawing = Some (Predicted c conf) \<longrightarrow>
      85 / 100 \<le> conf
      \<and> (\<exists>probs k. model (hira_preprocess rs drawing) = Some probs \<and> argmax probs = Some k
            \<and> conf = Max (set probs) \<and> probs ! k = conf \<and> lookup labs k = Some c))
   \<and> (model (hira_preprocess rs drawing) = Some probs \<and> probs \<noteq> [] \<and> Max (set probs) < 85 / 100 \<longrightarrow>
        hira_predict rs model labs drawing = Some NotRecognized)
   \<and> (model (hira_preprocess rs drawing) = Some probs \<and> argmax probs = Some k \<and> k < length labs
        \<and> 85 / 100 \<le> Max (set probs) \<longrightarrow>
        hira_predict rs model labs drawing = Some (Predicted (labs ! k) (Max (set probs))))
   \<and> hira_preprocess rs drawing
       = [map (map (\<lambda>r. [of_nat (unat (255 - r)) / 255])) (rs 48 drawing)]"
proof -
  have shown: "85 / 100 \<le> conf
      \<and> (\<exists>probs k. model (hira_preprocess rs drawing) = Some probs \<and> argmax probs = Some k
            \<and> conf = Max (set probs) \<and> probs ! k = conf \<and> lookup labs k = Some c)"
    if "hira_predict rs model labs drawing = Some (Predicted c conf)"
    using that argmax_max
    by (auto simp: hira_predict_def Let_def split: option.splits if_splits)
  have low: "hira_predict rs model labs drawing = Some NotRecognized"
    if "model (hira_preprocess rs drawing) = Some probs" "probs \<noteq> []" "Max (set probs) < 85 / 100"
    using that by (simp add: hira_predict_def Let_def argmax_def)
  have high: "hira_predict rs model labs drawing = Some (Predicted (labs ! k) (Max (set probs)))"
    if "model (hira_preprocess rs drawing) = Some probs" "argmax probs = Some k" "k < length labs"
       "85 / 100 \<le> Max (set probs)"
    using that by (simp add: hira_predict_def Let_def lookup_def)
  have pre: "hira_preprocess rs drawing
       = [map (map (\<lambda>r. [of_nat (unat (255 - r)) / 255])) (rs 48 drawing)]"
    by (simp add: hira_preprocess_def reshape_def scale_def invert_def comp_def)
  from shown low high pre show ?thesis by blast
qed

theorem hira_predict_threshold_witness:
  "hira_predict (\<lambda>n img. img) (\<lambda>x. Some [1 / 10, 9 / 10]) [Single ''a'', Single ''i''] [[255, 0]]
     = Some (Predicted (Single ''i'') (9 / 10))
   \<and> (85 / 100 :: rat) \<le> 9 / 10
   \<and> hira_predict (\<lambda>n img. img) (\<lambda>x. Some [1 / 2, 1 / 2]) [Single ''a'', Single ''i''] [[255, 0]]
     = Some NotRecognized
   \<and> hira_preprocess (\<lambda>n img. img) [[255, 0]] = [[[[0], [1]]]]"
proof -
  have a: "argmax [1 / 10, 9 / 10] = Some 1"
    by (simp add: argmax_def)
  have m: "Max (set [1 / 10, 9 / 10 :: rat]) = 9 / 10" "Max (set [1 / 2, 1 / 2 :: rat]) = 1 / 2"
    by simp_all
  show ?thesis
    using hira_predict_threshold [of "\<lambda>n img. img" "\<lambda>x. Some [1 / 10, 9 / 10]" "[Single ''a'', Single ''i'']"
            "[[255, 0]]" "Single ''i''" "9 / 10" "[1 / 10, 9 / 10]" 1]
          hira_predict_threshold [of "\<lambda>n img. img" "\<lambda>x. Some [1 / 2, 1 / 2]" "[Single ''a'', Single ''i'']"
            "[[255, 0]]" "Single ''i''" "9 / 10" "[1 / 2, 1 / 2]" 1]
    by (simp add: a m)
qed

end
